theory Spec2Isabelle
  imports Main "HOL-Library.Sublist"
begin

section \<open>Values read from and written to the file\<close>

text \<open>
  \<open>json.load\<close> turns the text of a file into Python values: \<open>None\<close>, booleans, integers,
  strings, lists and dictionaries with string keys. The datatype below is that value space.
  JSON numbers with a fraction or an exponent (Python floats) are left out. A dictionary
  is an association list read with \<open>map_of\<close>; only membership, lookup and \<open>get\<close> are used
  on it by the program.
\<close>

datatype json =
    JNull
  | JBool bool
  | JInt int
  | JStr string
  | JArr "json list"
  | JObj "(string \<times> json) list"

text \<open>The classes of exception that the modelled statements can raise.\<close>

datatype exc = ValueError | KeyError | TypeError | AttributeError

subsection \<open>String methods\<close>

text \<open>
  Text is ASCII in this model. \<open>str.isspace\<close> holds in that range for tab, line feed,
  vertical tab, form feed, carriage return, the four separators \<open>0x1C\<close> to \<open>0x1F\<close>, and
  the space; \<open>str.lower\<close> maps \<open>A\<close> to \<open>Z\<close> onto \<open>a\<close> to \<open>z\<close>; \<open>str.isdigit\<close> holds for a
  non-empty string of the digits \<open>0\<close> to \<open>9\<close>, which \<open>int\<close> reads in base ten.
\<close>

definition isspace :: "char \<Rightarrow> bool" where
  "isspace c = ((9 \<le> (of_char c :: nat) \<and> (of_char c :: nat) \<le> 13)
              \<or> (28 \<le> (of_char c :: nat) \<and> (of_char c :: nat) \<le> 32))"

definition strip :: "string \<Rightarrow> string" where
  "strip s = rev (dropWhile isspace (rev (dropWhile isspace s)))"

definition lower_char :: "char \<Rightarrow> char" where
  "lower_char c =
     (if 65 \<le> (of_char c :: nat) \<and> (of_char c :: nat) \<le> 90
      then char_of ((of_char c :: nat) + 32) else c)"

definition lower :: "string \<Rightarrow> string" where
  "lower s = map lower_char s"

definition is_digit_char :: "char \<Rightarrow> bool" where
  "is_digit_char c = (48 \<le> (of_char c :: nat) \<and> (of_char c :: nat) \<le> 57)"

definition isdigit :: "string \<Rightarrow> bool" where
  "isdigit s = (s \<noteq> [] \<and> list_all is_digit_char s)"

definition int_of_digits :: "string \<Rightarrow> int" where
  "int_of_digits s = foldl (\<lambda>acc c. 10 * acc + (int (of_char c) - 48)) 0 s"

text \<open>\<open>needle in hay\<close> on two strings: the needle starts at some position of the hay.\<close>

fun py_in :: "string \<Rightarrow> string \<Rightarrow> bool" where
  "py_in needle [] = (needle = [])"
| "py_in needle (h # hay) = (prefix needle (h # hay) \<or> py_in needle hay)"

section \<open>Contact\<close>

record contact =
  contact_id :: json
  name :: string
  phone :: string
  comment :: string

text \<open>\<open>Contact.__init__\<close>: the identifier is stored as given, the three texts are stripped.\<close>

definition Contact :: "string \<Rightarrow> string \<Rightarrow> string \<Rightarrow> json \<Rightarrow> contact" where
  "Contact nm ph cm cid =
     \<lparr>contact_id = cid, name = strip nm, phone = strip ph, comment = strip cm\<rparr>"

definition to_dict :: "contact \<Rightarrow> json" where
  "to_dict c =
     JObj [(''id'', contact_id c), (''name'', JStr (name c)),
           (''phone'', JStr (phone c)), (''comment'', JStr (comment c))]"

text \<open>
  \<open>Contact.from_dict\<close>. On a dictionary lacking \<open>name\<close> or \<open>phone\<close> it raises
  \<open>ValueError\<close>. Otherwise the constructor calls \<open>strip\<close> on the values under \<open>name\<close>,
  \<open>phone\<close> and \<open>comment\<close> (default \<open>''\<close>): a value that is not a string has no such
  method, which is an \<open>AttributeError\<close>. The identifier is \<open>data.get('id')\<close>, \<open>None\<close> when
  the key is absent, and is not inspected here. \<open>dict_get\<close> is \<open>dict.get\<close> with its
  default, \<open>new_contact\<close> the call of the constructor on the four values.

  On a value that is not a dictionary the membership tests decide: a number, a boolean
  or \<open>None\<close> is not iterable (\<open>TypeError\<close>); a string or a list either fails both tests
  and then has no \<open>keys\<close> for the message of the \<open>ValueError\<close> (\<open>AttributeError\<close>), or
  passes them and cannot be indexed by \<open>'name'\<close> (\<open>TypeError\<close>).
\<close>

definition dict_get :: "(string \<times> json) list \<Rightarrow> string \<Rightarrow> json \<Rightarrow> json" where
  "dict_get d k dflt = (case map_of d k of None \<Rightarrow> dflt | Some v \<Rightarrow> v)"

fun new_contact :: "json \<Rightarrow> json \<Rightarrow> json \<Rightarrow> json \<Rightarrow> exc + contact" where
  "new_contact (JStr nm) (JStr ph) (JStr cm) cid = Inr (Contact nm ph cm cid)"
| "new_contact vn vp vc cid = Inl AttributeError"

fun from_dict :: "json \<Rightarrow> exc + contact" where
  "from_dict (JObj d) =
     (case map_of d ''name'' of
        None \<Rightarrow> Inl ValueError
      | Some vn \<Rightarrow>
          (case map_of d ''phone'' of
             None \<Rightarrow> Inl ValueError
           | Some vp \<Rightarrow>
               new_contact vn vp (dict_get d ''comment'' (JStr [])) (dict_get d ''id'' JNull)))"
| "from_dict (JStr s) =
     (if py_in ''name'' s \<and> py_in ''phone'' s then Inl TypeError else Inl AttributeError)"
| "from_dict (JArr xs) =
     (if JStr ''name'' \<in> set xs \<and> JStr ''phone'' \<in> set xs then Inl TypeError
      else Inl AttributeError)"
| "from_dict _ = Inl TypeError"

section \<open>PhoneBook\<close>

record phonebook =
  filename :: string
  contacts :: "contact list"
  next_id :: int
  modified :: bool

definition init :: "string \<Rightarrow> phonebook" where
  "init fname = \<lparr>filename = fname, contacts = [], next_id = 1, modified = False\<rparr>"

subsection \<open>The file system\<close>

text \<open>
  A file is represented by what \<open>json.load\<close> makes of its text: \<open>Malformed\<close> when it raises
  \<open>JSONDecodeError\<close>, the parsed value otherwise; writing with \<open>json.dump\<close> stores the value
  written. \<open>denied\<close> holds for the paths that \<open>open\<close> refuses for reading, \<open>unwritable\<close> for
  the paths that it refuses for writing; the two are independent.
\<close>

datatype file_content = Malformed | Document json

record filesystem =
  files :: "string \<Rightarrow> file_content option"
  denied :: "string \<Rightarrow> bool"
  unwritable :: "string \<Rightarrow> bool"

subsection \<open>load_from_file\<close>

text \<open>
  \<open>data.get('contacts', [])\<close> needs a dictionary (\<open>AttributeError\<close> otherwise), and
  \<open>enumerate\<close> iterates over what it finds there: the elements of a list, the characters
  of a string, the keys of a dictionary; anything else is not iterable.
\<close>

fun get_contacts :: "json \<Rightarrow> exc + json" where
  "get_contacts (JObj d) = Inr (dict_get d ''contacts'' (JArr []))"
| "get_contacts _ = Inl AttributeError"

fun py_iter :: "json \<Rightarrow> exc + json list" where
  "py_iter (JArr xs) = Inr xs"
| "py_iter (JStr s) = Inr (map (\<lambda>c. JStr [c]) s)"
| "py_iter (JObj d) = Inr (map (\<lambda>kv. JStr (fst kv)) d)"
| "py_iter _ = Inl TypeError"

text \<open>
  The loop over the entries, from entry number \<open>i\<close> (counted from 0). A \<open>ValueError\<close> or a
  \<open>KeyError\<close> is caught: the entry is skipped and the warning names it as \<open>#i+1\<close>. Any other
  exception leaves the loop. The result is the list of warnings printed and the list
  collected, or the exception.
\<close>

fun load_contacts :: "nat \<Rightarrow> json list \<Rightarrow> nat list \<times> (exc + contact list)" where
  "load_contacts i [] = ([], Inr [])"
| "load_contacts i (e # es) =
     (case from_dict e of
        Inr c \<Rightarrow>
          (case load_contacts (Suc i) es of
             (w, Inr cs) \<Rightarrow> (w, Inr (c # cs))
           | (w, Inl x) \<Rightarrow> (w, Inl x))
      | Inl ValueError \<Rightarrow>
          (case load_contacts (Suc i) es of (w, r) \<Rightarrow> (Suc i # w, r))
      | Inl KeyError \<Rightarrow>
          (case load_contacts (Suc i) es of (w, r) \<Rightarrow> (Suc i # w, r))
      | Inl x \<Rightarrow> ([], Inl x))"

text \<open>
  \<open>max(ids_with_values) + 1\<close>. Integers and booleans compare and add as numbers. Any other
  value among the identifiers ends in a \<open>TypeError\<close>: either \<open>max\<close> has to compare it with a
  value of another kind, or two dictionaries, or \<open>max\<close> returns a string, a list or a
  dictionary, to which \<open>1\<close> cannot be added.
\<close>

fun py_num :: "json \<Rightarrow> int option" where
  "py_num (JInt n) = Some n"
| "py_num (JBool b) = Some (if b then 1 else 0)"
| "py_num _ = None"

fun max_plus_one :: "json list \<Rightarrow> exc + int" where
  "max_plus_one [] = Inl ValueError"
| "max_plus_one (v # vs) =
     (if list_all (\<lambda>x. py_num x \<noteq> None) (v # vs)
      then Inr (fold max (map (\<lambda>x. the (py_num x)) vs) (the (py_num v)) + 1)
      else Inl TypeError)"

text \<open>
  The loop that gives an identifier to every contact without one: the list, the counter
  and the flag \<open>modified_by_id_assignment\<close> after it.
\<close>

fun assign_ids :: "int \<Rightarrow> contact list \<Rightarrow> contact list \<times> int \<times> bool" where
  "assign_ids n [] = ([], n, False)"
| "assign_ids n (c # cs) =
     (if contact_id c = JNull
      then (case assign_ids (n + 1) cs of
              (cs', n', b) \<Rightarrow> (c\<lparr>contact_id := JInt n\<rparr> # cs', n', True))
      else (case assign_ids n cs of (cs', n', b) \<Rightarrow> (c # cs', n', b)))"

text \<open>
  The part of \<open>load_from_file\<close> after \<open>self.contacts = contacts_list\<close>. The list is already
  stored when \<open>max\<close> raises, so that failure returns with the new list, the old counter
  and the old flag. The flag is cleared when no identifier was assigned and is otherwise
  left as it was.
\<close>

definition install :: "contact list \<Rightarrow> phonebook \<Rightarrow> bool \<times> phonebook" where
  "install cs pb =
     (if cs \<noteq> [] then
        (case (let ids_with_values = filter (\<lambda>v. v \<noteq> JNull) (map contact_id cs)
               in if ids_with_values \<noteq> [] then max_plus_one ids_with_values else Inr 1) of
           Inl x \<Rightarrow> (False, pb\<lparr>contacts := cs\<rparr>)
         | Inr n \<Rightarrow>
             (case assign_ids n cs of
                (cs', n', modified_by_id_assignment) \<Rightarrow>
                  (True, pb\<lparr>contacts := cs', next_id := n',
                            modified := (if \<not> modified_by_id_assignment then False
                                         else modified pb)\<rparr>)))
      else (True, pb\<lparr>contacts := cs, next_id := 1, modified := False\<rparr>))"

text \<open>
  \<open>load_from_file\<close> returns its boolean, the warnings printed, and the store afterwards.
  Every exception is caught and turned into \<open>False\<close>.
\<close>

definition load_from_file :: "filesystem \<Rightarrow> phonebook \<Rightarrow> bool \<times> nat list \<times> phonebook" where
  "load_from_file fs pb =
     (case files fs (filename pb) of
        None \<Rightarrow> (True, [], pb)
      | Some f \<Rightarrow>
          if denied fs (filename pb) then (False, [], pb)
          else
            (case f of
               Malformed \<Rightarrow> (False, [], pb)
             | Document data \<Rightarrow>
                 (case get_contacts data of
                    Inl x \<Rightarrow> (False, [], pb)
                  | Inr v \<Rightarrow>
                      (case py_iter v of
                         Inl x \<Rightarrow> (False, [], pb)
                       | Inr entries \<Rightarrow>
                           (case load_contacts 0 entries of
                              (w, Inl x) \<Rightarrow> (False, w, pb)
                            | (w, Inr cs) \<Rightarrow>
                                (case install cs pb of (ok, pb') \<Rightarrow> (ok, w, pb')))))))"

subsection \<open>save_to_file\<close>

text \<open>
  \<open>now\<close> is the text of \<open>datetime.now().isoformat()\<close>. When \<open>open\<close> raises, nothing is
  written and the store is as before; otherwise the file holds the document and the
  flag is cleared.
\<close>

definition save_to_file :: "string \<Rightarrow> filesystem \<Rightarrow> phonebook \<Rightarrow> bool \<times> filesystem \<times> phonebook" where
  "save_to_file now fs pb =
     (if unwritable fs (filename pb) then (False, fs, pb)
      else
        (let data = JObj [(''contacts'', JArr (map to_dict (contacts pb))),
                          (''last_updated'', JStr now)]
         in (True, fs\<lparr>files := (files fs)(filename pb := Some (Document data))\<rparr>,
             pb\<lparr>modified := False\<rparr>)))"

subsection \<open>The interactive operations\<close>

text \<open>
  Each \<open>input()\<close> of an operation is an argument of its model, in the order of the
  prompts: \<open>Some\<close> of the line typed, or \<open>None\<close> when the prompt is interrupted
  (\<open>KeyboardInterrupt\<close>, \<open>EOFError\<close>), which the operation catches and returns from. What
  an operation prints is summarised by a \<open>report\<close>; the advisory check of the telephone
  format only prints a warning and is not part of the model.
\<close>

datatype report =
    BookEmpty
  | Interrupted
  | EmptyName
  | EmptyPhone
  | EmptyQuery
  | BadId
  | NotFound int
  | Created contact
  | Results "contact list"
  | Edited
  | Deleted
  | NotConfirmed

definition create_contact ::
  "string option \<Rightarrow> string option \<Rightarrow> string option \<Rightarrow> phonebook \<Rightarrow> report \<times> phonebook" where
  "create_contact name_in phone_in comment_in pb =
     (case name_in of
        None \<Rightarrow> (Interrupted, pb)
      | Some l1 \<Rightarrow>
          if strip l1 = [] then (EmptyName, pb)
          else
            (case phone_in of
               None \<Rightarrow> (Interrupted, pb)
             | Some l2 \<Rightarrow>
                 if strip l2 = [] then (EmptyPhone, pb)
                 else
                   (case comment_in of
                      None \<Rightarrow> (Interrupted, pb)
                    | Some l3 \<Rightarrow>
                        (let c = Contact (strip l1) (strip l2) (strip l3) (JInt (next_id pb))
                         in (Created c,
                             pb\<lparr>contacts := contacts pb @ [c],
                                next_id := next_id pb + 1,
                                modified := True\<rparr>)))))"

text \<open>
  \<open>find_contact\<close>. The query is stripped and lowered before it is tested for emptiness.
  Choices \<open>1\<close>, \<open>2\<close>, \<open>3\<close> search one field; \<open>4\<close> and every other choice search all three.
\<close>

definition find_contact :: "string option \<Rightarrow> string option \<Rightarrow> phonebook \<Rightarrow> report" where
  "find_contact choice_in term_in pb =
     (if contacts pb = [] then BookEmpty
      else
        (case choice_in of
           None \<Rightarrow> Interrupted
         | Some l1 \<Rightarrow>
             (case term_in of
                None \<Rightarrow> Interrupted
              | Some l2 \<Rightarrow>
                  (let choice = strip l1; search_term = lower (strip l2)
                   in if search_term = [] then EmptyQuery
                      else if choice = ''1'' then
                        Results (filter (\<lambda>c. py_in search_term (lower (name c))) (contacts pb))
                      else if choice = ''2'' then
                        Results (filter (\<lambda>c. py_in search_term (lower (phone c))) (contacts pb))
                      else if choice = ''3'' then
                        Results (filter (\<lambda>c. py_in search_term (lower (comment c))) (contacts pb))
                      else
                        Results (filter (\<lambda>c. py_in search_term (lower (name c))
                                            \<or> py_in search_term (lower (phone c))
                                            \<or> py_in search_term (lower (comment c)))
                                        (contacts pb))))))"

text \<open>
  \<open>contact.id == contact_id\<close> with an integer on the right: an integer identifier is equal
  when it is the same number, a boolean one when it is that number as \<open>0\<close> or \<open>1\<close>, and no
  other value is equal to an integer.
\<close>

fun id_eq :: "json \<Rightarrow> int \<Rightarrow> bool" where
  "id_eq (JInt m) n = (m = n)"
| "id_eq (JBool b) n = ((if b then 1 else 0) = n)"
| "id_eq _ n = False"

text \<open>
  \<open>_find_by_id\<close> returns the first contact with the identifier. The contact is an object
  of the list; the model returns its position.
\<close>

fun find_by_id :: "contact list \<Rightarrow> int \<Rightarrow> nat option" where
  "find_by_id [] n = None"
| "find_by_id (c # cs) n =
     (if id_eq (contact_id c) n then Some 0 else map_option Suc (find_by_id cs n))"

text \<open>
  \<open>edit_contact\<close>. Each field is assigned as soon as its line is read, so an interrupted
  later prompt leaves the earlier assignments in place; \<open>modified\<close> is set at the end.
\<close>

definition edit_contact ::
  "string option \<Rightarrow> string option \<Rightarrow> string option \<Rightarrow> string option \<Rightarrow> phonebook
     \<Rightarrow> report \<times> phonebook" where
  "edit_contact id_in name_in phone_in comment_in pb =
     (if contacts pb = [] then (BookEmpty, pb)
      else
        (case id_in of
           None \<Rightarrow> (Interrupted, pb)
         | Some l0 \<Rightarrow>
             if \<not> isdigit (strip l0) then (BadId, pb)
             else
               (case find_by_id (contacts pb) (int_of_digits (strip l0)) of
                  None \<Rightarrow> (NotFound (int_of_digits (strip l0)), pb)
                | Some k \<Rightarrow>
                    (case name_in of
                       None \<Rightarrow> (Interrupted, pb)
                     | Some l1 \<Rightarrow>
                         (let pb1 = (if strip l1 \<noteq> []
                                     then pb\<lparr>contacts :=
                                            (contacts pb)[k := (contacts pb ! k)\<lparr>name := strip l1\<rparr>]\<rparr>
                                     else pb)
                          in case phone_in of
                               None \<Rightarrow> (Interrupted, pb1)
                             | Some l2 \<Rightarrow>
                                 (let pb2 = (if strip l2 \<noteq> []
                                             then pb1\<lparr>contacts :=
                                                    (contacts pb1)[k := (contacts pb1 ! k)\<lparr>phone := strip l2\<rparr>]\<rparr>
                                             else pb1)
                                  in case comment_in of
                                       None \<Rightarrow> (Interrupted, pb2)
                                     | Some l3 \<Rightarrow>
                                         (let pb3 = (if strip l3 \<noteq> []
                                                     then pb2\<lparr>contacts :=
                                                            (contacts pb2)[k := (contacts pb2 ! k)\<lparr>comment := strip l3\<rparr>]\<rparr>
                                                     else pb2)
                                          in (Edited, pb3\<lparr>modified := True\<rparr>))))))))"

text \<open>
  \<open>delete_contact\<close>. Of the accepted confirmations the ASCII ones, \<open>yes\<close> and \<open>y\<close>, are in
  the model. \<open>remove\<close> takes out the object found, the one at the position returned.
\<close>

definition delete_contact :: "string option \<Rightarrow> string option \<Rightarrow> phonebook \<Rightarrow> report \<times> phonebook" where
  "delete_contact id_in confirm_in pb =
     (if contacts pb = [] then (BookEmpty, pb)
      else
        (case id_in of
           None \<Rightarrow> (Interrupted, pb)
         | Some l0 \<Rightarrow>
             if \<not> isdigit (strip l0) then (BadId, pb)
             else
               (case find_by_id (contacts pb) (int_of_digits (strip l0)) of
                  None \<Rightarrow> (NotFound (int_of_digits (strip l0)), pb)
                | Some k \<Rightarrow>
                    (case confirm_in of
                       None \<Rightarrow> (Interrupted, pb)
                     | Some l1 \<Rightarrow>
                         if lower (strip l1) \<in> set [''yes'', ''y'']
                         then (Deleted,
                               pb\<lparr>contacts := take k (contacts pb) @ drop (Suc k) (contacts pb),
                                  modified := True\<rparr>)
                         else (NotConfirmed, pb)))))"

definition has_unsaved_changes :: "phonebook \<Rightarrow> bool" where
  "has_unsaved_changes pb = modified pb"

section \<open>Notions used to state the properties\<close>

text \<open>
  An entry of the file \<open>has_keys\<close> when it is a dictionary with the keys \<open>name\<close> and
  \<open>phone\<close>. It is a \<open>contact_object\<close> when it is a dictionary and, if it has those keys,
  holds strings under \<open>name\<close>, \<open>phone\<close> and (when present) \<open>comment\<close>, and nothing, \<open>null\<close>
  or a number under \<open>id\<close>.
\<close>

fun has_keys :: "json \<Rightarrow> bool" where
  "has_keys (JObj d) = (map_of d ''name'' \<noteq> None \<and> map_of d ''phone'' \<noteq> None)"
| "has_keys _ = False"

fun is_str :: "json \<Rightarrow> bool" where
  "is_str (JStr s) = True"
| "is_str _ = False"

fun the_str :: "json \<Rightarrow> string" where
  "the_str (JStr s) = s"
| "the_str _ = []"

fun is_int :: "json \<Rightarrow> bool" where
  "is_int (JInt n) = True"
| "is_int _ = False"

fun entry_id :: "json \<Rightarrow> json" where
  "entry_id (JObj d) = dict_get d ''id'' JNull"
| "entry_id _ = JNull"

fun contact_object :: "json \<Rightarrow> bool" where
  "contact_object (JObj d) =
     (has_keys (JObj d) \<longrightarrow>
        is_str (dict_get d ''name'' JNull) \<and> is_str (dict_get d ''phone'' JNull)
        \<and> is_str (dict_get d ''comment'' (JStr []))
        \<and> (dict_get d ''id'' JNull = JNull \<or> py_num (dict_get d ''id'' JNull) \<noteq> None))"
| "contact_object _ = False"

text \<open>
  A record \<open>represents\<close> an entry when its texts are the stripped strings of the entry
  (the empty string for an absent \<open>comment\<close>) and its identifier is the entry's, if the
  entry has one.
\<close>

fun represents :: "json \<Rightarrow> contact \<Rightarrow> bool" where
  "represents (JObj d) c =
     (name c = strip (the_str (dict_get d ''name'' JNull))
      \<and> phone c = strip (the_str (dict_get d ''phone'' JNull))
      \<and> comment c = strip (the_str (dict_get d ''comment'' (JStr [])))
      \<and> (dict_get d ''id'' JNull \<noteq> JNull \<longrightarrow> contact_id c = dict_get d ''id'' JNull))"
| "represents _ c = False"

text \<open>The numbers, counted from 1, of the entries that lack a required key.\<close>

definition skipped :: "json list \<Rightarrow> nat list" where
  "skipped entries =
     map (\<lambda>p. Suc (fst p)) (filter (\<lambda>p. \<not> has_keys (snd p)) (enumerate 0 entries))"

text \<open>
  The identifiers a file gives: those, other than \<open>null\<close>, of its entries with both
  keys. \<open>given_ids_ok\<close> holds when each of them is an integer and no two are equal.
\<close>

definition doc_entries :: "json \<Rightarrow> json list" where
  "doc_entries data =
     (case get_contacts data of
        Inl x \<Rightarrow> []
      | Inr v \<Rightarrow> (case py_iter v of Inl x \<Rightarrow> [] | Inr entries \<Rightarrow> entries))"

definition given_ids :: "json list \<Rightarrow> json list" where
  "given_ids entries = filter (\<lambda>v. v \<noteq> JNull) (map entry_id (filter has_keys entries))"

definition given_ids_ok :: "json list \<Rightarrow> bool" where
  "given_ids_ok entries = (list_all is_int (given_ids entries) \<and> distinct (given_ids entries))"

text \<open>
  The invariant of the store: every record has an identifier, no two records have the
  same one, and the counter is above every identifier, which is an integer.
\<close>

fun id_below :: "int \<Rightarrow> json \<Rightarrow> bool" where
  "id_below n (JInt m) = (m < n)"
| "id_below n v = False"

definition store_inv :: "phonebook \<Rightarrow> bool" where
  "store_inv pb =
     (list_all (\<lambda>c. contact_id c \<noteq> JNull) (contacts pb)
      \<and> distinct (map contact_id (contacts pb))
      \<and> list_all (\<lambda>c. id_below (next_id pb) (contact_id c)) (contacts pb))"

text \<open>Auxiliary notions for the proofs about loading.\<close>

definition stripped :: "contact \<Rightarrow> bool" where
  "stripped c =
     (strip (name c) = name c \<and> strip (phone c) = phone c \<and> strip (comment c) = comment c)"

definition well_formed :: "contact \<Rightarrow> bool" where
  "well_formed c = (stripped c \<and> contact_id c \<noteq> JNull \<and> py_num (contact_id c) \<noteq> None)"

definition warnings_from :: "nat \<Rightarrow> json list \<Rightarrow> nat list" where
  "warnings_from i es =
     map (\<lambda>p. Suc (fst p)) (filter (\<lambda>p. \<not> has_keys (snd p)) (enumerate i es))"

definition same_but_id :: "contact \<Rightarrow> contact \<Rightarrow> bool" where
  "same_but_id c c' =
     (name c' = name c \<and> phone c' = phone c \<and> comment c' = comment c
      \<and> (contact_id c \<noteq> JNull \<longrightarrow> contact_id c' = contact_id c))"

definition start_id :: "contact list \<Rightarrow> exc + int" where
  "start_id cs =
     (let ids_with_values = filter (\<lambda>v. v \<noteq> JNull) (map contact_id cs)
      in if ids_with_values \<noteq> [] then max_plus_one ids_with_values else Inr 1)"

section \<open>Example data\<close>

definition ann :: contact where
  "ann = \<lparr>contact_id = JInt 1, name = ''Ann'', phone = ''555 0101'', comment = ''work''\<rparr>"

definition book_clean :: phonebook where
  "book_clean = \<lparr>filename = ''pb.json'', contacts = [ann], next_id = 2, modified = False\<rparr>"

definition book_dirty :: phonebook where
  "book_dirty = \<lparr>filename = ''pb.json'', contacts = [ann], next_id = 2, modified = True\<rparr>"

definition no_files :: filesystem where
  "no_files = \<lparr>files = (\<lambda>p. None), denied = (\<lambda>p. False), unwritable = (\<lambda>p. False)\<rparr>"

definition disk :: "file_content \<Rightarrow> filesystem" where
  "disk f =
     \<lparr>files = (\<lambda>p. if p = ''pb.json'' then Some f else None), denied = (\<lambda>p. False),
      unwritable = (\<lambda>p. False)\<rparr>"

definition entry_without_id :: json where
  "entry_without_id = JObj [(''name'', JStr ''Bob''), (''phone'', JStr ''12'')]"

definition entry_with_note :: json where
  "entry_with_note =
     JObj [(''name'', JStr ''Cy''), (''phone'', JStr ''3''), (''note'', JStr ''hi'')]"

definition document :: "json list \<Rightarrow> file_content" where
  "document entries = Document (JObj [(''contacts'', JArr entries)])"

definition ivan_book :: phonebook where
  "ivan_book = \<lparr>filename = ''pb.json'',
     contacts = [\<lparr>contact_id = JInt 1, name = ''Ivan Petrov'', phone = ''1'', comment = ''''\<rparr>,
                 \<lparr>contact_id = JInt 2, name = ''Maria'', phone = ''2'', comment = ''ask Ivan''\<rparr>,
                 \<lparr>contact_id = JInt 3, name = ''Oleg'', phone = ''3'', comment = ''''\<rparr>],
     next_id = 4, modified = False\<rparr>"

definition three_entries :: "json list" where
  "three_entries =
     [JObj [(''id'', JInt 7), (''name'', JStr ''Ann''), (''phone'', JStr ''555 0101''),
            (''comment'', JStr '' work '')],
      JObj [(''name'', JStr ''Eve'')],
      entry_without_id]"

definition duplicate_entries :: "json list" where
  "duplicate_entries =
     [JObj [(''id'', JInt 1), (''name'', JStr ''Ann''), (''phone'', JStr ''1'')],
      JObj [(''id'', JInt 1), (''name'', JStr ''Di''), (''phone'', JStr ''4'')]]"

definition loaded_book :: phonebook where
  "loaded_book =
     \<lparr>filename = ''pb.json'',
      contacts = [\<lparr>contact_id = JInt 7, name = ''Ann'', phone = ''555 0101'', comment = ''work''\<rparr>,
                  \<lparr>contact_id = JInt 8, name = ''Bob'', phone = ''12'', comment = ''''\<rparr>],
      next_id = 9, modified = False\<rparr>"

definition entry_with_text_id :: json where
  "entry_with_text_id =
     JObj [(''id'', JStr ''x''), (''name'', JStr ''Eve''), (''phone'', JStr ''9'')]"

section \<open>Properties of the string methods\<close>

lemma py_in_sublist: "py_in xs ys = sublist xs ys"
  by (induction ys) (simp_all add: sublist_Cons_right)

lemma rstrip_decomp: "u = rev (dropWhile P (rev u)) @ rev (takeWhile P (rev u))"
  by (metis rev_append rev_rev_ident takeWhile_dropWhile_id)

lemma strip_last: "strip s \<noteq> [] \<Longrightarrow> \<not> isspace (last (strip s))"
  unfolding strip_def
  by (metis hd_dropWhile last_rev rev_is_Nil_conv)

lemma strip_hd:
  assumes "strip s \<noteq> []"
  shows "\<not> isspace (hd (strip s))"
proof -
  define u where "u = dropWhile isspace s"
  have s: "strip s = rev (dropWhile isspace (rev u))" by (simp add: strip_def u_def)
  have "u = strip s @ rev (takeWhile isspace (rev u))"
    unfolding s by (rule rstrip_decomp)
  with assms have "hd u = hd (strip s)" and "u \<noteq> []"
    by (metis hd_append2, metis append_is_Nil_conv)
  then show ?thesis
    unfolding u_def by (metis hd_dropWhile)
qed

lemma strip_idem: "strip (strip s) = strip s"
proof (cases "strip s = []")
  case True
  have "strip [] = []" by (simp add: strip_def)
  with True show ?thesis by simp
next
  case False
  have 1: "dropWhile isspace (strip s) = strip s"
    using strip_hd [OF False] False by (simp add: dropWhile_eq_self_iff)
  have "rev (strip s) \<noteq> []" using False by simp
  moreover have "\<not> isspace (hd (rev (strip s)))"
    using strip_last [OF False] False by (simp add: hd_rev)
  ultimately have 2: "dropWhile isspace (rev (strip s)) = rev (strip s)"
    by (simp add: dropWhile_eq_self_iff)
  show ?thesis
    unfolding strip_def [of "strip s"] 1 2 by simp
qed

lemma lower_Nil: "lower s = [] \<longleftrightarrow> s = []"
  by (simp add: lower_def)

section \<open>Loading a file that cannot be parsed\<close>

text \<open>
  C4. When the file at the store's path exists and \<open>json.load\<close> cannot parse it,
  \<open>load_from_file\<close> returns \<open>False\<close>, prints no warning, and the store (records, counter,
  flag, path) is the one before the call.
\<close>

theorem load_malformed_keeps_store:
  "files fs (filename pb) = Some Malformed \<Longrightarrow> load_from_file fs pb = (False, [], pb)"
  by (simp add: load_from_file_def)

theorem load_malformed_keeps_store_witness:
  "files (disk Malformed) (filename book_dirty) = Some Malformed
   \<and> load_from_file (disk Malformed) book_dirty = (False, [], book_dirty)"
proof -
  have h: "files (disk Malformed) (filename book_dirty) = Some Malformed"
    by (simp add: disk_def book_dirty_def)
  show ?thesis
    using h load_malformed_keeps_store [OF h] by simp
qed

text \<open>
  A file that parses is a different matter. When an identifier in it is a string, the
  failure comes from \<open>max(ids_with_values) + 1\<close>, after the new list was stored: the load
  returns \<open>False\<close> and the records of the store are those of the file, without the
  identifiers that the assignment loop would have given.
\<close>

lemma load_text_id_replaces_contacts:
  "load_from_file (disk (document [entry_with_text_id, entry_without_id])) book_dirty =
     (False, [],
      \<lparr>filename = ''pb.json'',
       contacts = [\<lparr>contact_id = JStr ''x'', name = ''Eve'', phone = ''9'', comment = ''''\<rparr>,
                   \<lparr>contact_id = JNull, name = ''Bob'', phone = ''12'', comment = ''''\<rparr>],
       next_id = 2, modified = True\<rparr>)"
  by (simp add: load_from_file_def disk_def document_def entry_with_text_id_def
      entry_without_id_def book_dirty_def install_def Contact_def dict_get_def strip_def
      isspace_def)

section \<open>Creating a contact\<close>

text \<open>
  C6. \<open>create_contact\<close> with a name or a telephone that is empty after stripping reports
  the empty field and returns the store as it was (records, counter and flag). With both
  non-empty, and the comment prompt answered, it appends exactly one record, whose
  identifier is the counter before the call and whose texts are the stripped lines, adds
  one to the counter and sets the flag.
\<close>

theorem create_contact_spec:
  "(strip l1 = [] \<or> strip l2 = [] \<longrightarrow>
      fst (create_contact (Some l1) (Some l2) comment_in pb) \<in> {EmptyName, EmptyPhone}
      \<and> snd (create_contact (Some l1) (Some l2) comment_in pb) = pb)
   \<and> (strip l1 \<noteq> [] \<and> strip l2 \<noteq> [] \<longrightarrow>
      create_contact (Some l1) (Some l2) (Some l3) pb =
        (Created \<lparr>contact_id = JInt (next_id pb), name = strip l1, phone = strip l2,
                  comment = strip l3\<rparr>,
         pb\<lparr>contacts := contacts pb @
                 [\<lparr>contact_id = JInt (next_id pb), name = strip l1, phone = strip l2,
                   comment = strip l3\<rparr>],
            next_id := next_id pb + 1,
            modified := True\<rparr>))"
  by (simp add: create_contact_def Contact_def strip_idem Let_def)

theorem create_contact_spec_witness:
  "(strip ''   '' = [] \<or> strip ''12'' = []) \<and>
   fst (create_contact (Some ''   '') (Some ''12'') None book_clean) \<in> {EmptyName, EmptyPhone}
   \<and> snd (create_contact (Some ''   '') (Some ''12'') None book_clean) = book_clean
   \<and> (strip ''Bob '' \<noteq> [] \<and> strip ''12'' \<noteq> []) \<and>
   create_contact (Some ''Bob '') (Some ''12'') (Some '' a note'') book_clean =
     (Created \<lparr>contact_id = JInt 2, name = ''Bob'', phone = ''12'', comment = ''a note''\<rparr>,
      \<lparr>filename = ''pb.json'',
       contacts = [ann, \<lparr>contact_id = JInt 2, name = ''Bob'', phone = ''12'',
                         comment = ''a note''\<rparr>],
       next_id = 3, modified = True\<rparr>)"
  using create_contact_spec [of "''   ''" "''12''" None book_clean "'' a note''"]
        create_contact_spec [of "''Bob ''" "''12''" None book_clean "'' a note''"]
  by (simp add: strip_def isspace_def book_clean_def)

section \<open>Loading when there is no file\<close>

text \<open>
  C3. With no file at the store's path \<open>load_from_file\<close> returns \<open>True\<close> at once: a store
  holding one record with unsaved changes holds the same record, and has the flag still
  set, after the call.
\<close>

theorem load_missing_file_keeps_store:
  "files no_files (filename book_dirty) = None
   \<and> load_from_file no_files book_dirty = (True, [], book_dirty)
   \<and> contacts book_dirty = [ann] \<and> modified book_dirty"
  by (simp add: load_from_file_def no_files_def book_dirty_def)

section \<open>The flag after a load that assigns identifiers\<close>

text \<open>
  C2. A new store (flag clear) loads a file whose only entry has no identifier: the load
  succeeds, the record is given identifier 1, and the flag is still clear.
\<close>

theorem load_assigns_id_flag_stays_clear:
  "load_from_file (disk (document [entry_without_id])) (init ''pb.json'') =
     (True, [],
      \<lparr>filename = ''pb.json'',
       contacts = [\<lparr>contact_id = JInt 1, name = ''Bob'', phone = ''12'', comment = ''''\<rparr>],
       next_id = 2, modified = False\<rparr>)"
  by (simp add: load_from_file_def disk_def document_def entry_without_id_def init_def
      install_def Contact_def dict_get_def strip_def isspace_def)

section \<open>Editing a contact\<close>

lemma find_by_id_Some:
  "find_by_id cs n = Some k \<Longrightarrow> k < length cs \<and> id_eq (contact_id (cs ! k)) n"
  by (induction cs arbitrary: k) (auto split: if_splits)

lemma find_by_id_first:
  "find_by_id cs n = Some k \<Longrightarrow> j < k \<Longrightarrow> \<not> id_eq (contact_id (cs ! j)) n"
proof (induction cs arbitrary: k j)
  case Nil
  then show ?case by simp
next
  case (Cons c cs)
  then show ?case by (cases j) (auto split: if_splits)
qed





section \<open>The key of the free text\<close>

text \<open>
  C9, as the program has it. \<open>from_dict\<close> reads the free text from the key \<open>comment\<close> only:
  for a dictionary with strings under \<open>name\<close> and \<open>phone\<close>, the record's text is empty when
  \<open>comment\<close> is absent and is the stripped string under \<open>comment\<close> otherwise. A key \<open>note\<close>
  is never read: adding one to a dictionary changes nothing.
\<close>

theorem from_dict_reads_comment_key:
  "from_dict (JObj ((''note'', v) # d)) = from_dict (JObj d)
   \<and> (map_of d ''name'' = Some (JStr nm) \<and> map_of d ''phone'' = Some (JStr ph) \<longrightarrow>
     (map_of d ''comment'' = None \<longrightarrow>
        from_dict (JObj d) =
          Inr \<lparr>contact_id = dict_get d ''id'' JNull,
               name = strip nm, phone = strip ph, comment = []\<rparr>)
     \<and> (map_of d ''comment'' = Some (JStr cm) \<longrightarrow>
        from_dict (JObj d) =
          Inr \<lparr>contact_id = dict_get d ''id'' JNull,
               name = strip nm, phone = strip ph, comment = strip cm\<rparr>))"
proof -
  have "strip [] = []" by (simp add: strip_def)
  then show ?thesis by (simp add: Contact_def dict_get_def split: option.splits)
qed

theorem from_dict_reads_comment_key_witness:
  "map_of [(''name'', JStr ''Cy''), (''phone'', JStr ''3''), (''comment'', JStr '' hi '')] ''name''
     = Some (JStr ''Cy'')
   \<and> map_of [(''name'', JStr ''Cy''), (''phone'', JStr ''3''), (''comment'', JStr '' hi '')] ''phone''
     = Some (JStr ''3'')
   \<and> map_of [(''name'', JStr ''Cy''), (''phone'', JStr ''3''), (''comment'', JStr '' hi '')] ''comment''
     = Some (JStr '' hi '')
   \<and> from_dict (JObj [(''note'', JStr ''x''), (''name'', JStr ''Cy''), (''phone'', JStr ''3''),
                       (''comment'', JStr '' hi '')])
     = Inr \<lparr>contact_id = JNull, name = ''Cy'', phone = ''3'', comment = ''hi''\<rparr>
   \<and> map_of [(''name'', JStr ''Cy''), (''phone'', JStr ''3'')] ''comment'' = None
   \<and> from_dict (JObj [(''note'', JStr ''x''), (''name'', JStr ''Cy''), (''phone'', JStr ''3'')])
     = Inr \<lparr>contact_id = JNull, name = ''Cy'', phone = ''3'', comment = ''''\<rparr>"
  using from_dict_reads_comment_key
          [of "JStr ''x''"
              "[(''name'', JStr ''Cy''), (''phone'', JStr ''3''), (''comment'', JStr '' hi '')]"
              "''Cy''" "''3''" "'' hi ''"]
        from_dict_reads_comment_key
          [of "JStr ''x''" "[(''name'', JStr ''Cy''), (''phone'', JStr ''3'')]"
              "''Cy''" "''3''" "''''"]
  by (simp add: strip_def isspace_def dict_get_def)

text \<open>
  C9 as first stated lets the text come from a key \<open>note\<close>. A file whose only entry
  has \<open>name\<close>, \<open>phone\<close> and \<open>note\<close> loads as one record with an empty text.
\<close>

theorem load_ignores_note_key:
  "load_from_file (disk (document [entry_with_note])) (init ''pb.json'') =
     (True, [],
      \<lparr>filename = ''pb.json'',
       contacts = [\<lparr>contact_id = JInt 1, name = ''Cy'', phone = ''3'', comment = ''''\<rparr>],
       next_id = 2, modified = False\<rparr>)"
  by (simp add: load_from_file_def disk_def document_def entry_with_note_def init_def
      install_def Contact_def dict_get_def strip_def isspace_def)

section \<open>Searching\<close>

text \<open>
  C7. The query is stripped and lowered. When nothing is left of it the search is refused
  and no result is produced. Otherwise, on a store that is not empty, \<open>find_contact\<close>
  returns the records of the store, in the store's order, for which the lowered query is
  a contiguous part of the lowered field: the name for choice \<open>1\<close>, the telephone for
  \<open>2\<close>, the comment for \<open>3\<close>, and any of the three for every other choice. On an empty
  store it reports the empty store.
\<close>

theorem find_contact_spec:
  "(strip q = [] \<longrightarrow> find_contact (Some ch) (Some q) pb \<in> {BookEmpty, EmptyQuery})
   \<and> (contacts pb = [] \<longrightarrow> find_contact (Some ch) (Some q) pb = BookEmpty)
   \<and> (strip q \<noteq> [] \<and> contacts pb \<noteq> [] \<longrightarrow>
        find_contact (Some ch) (Some q) pb =
          Results (filter
            (\<lambda>c. if strip ch = ''1'' then sublist (lower (strip q)) (lower (name c))
                 else if strip ch = ''2'' then sublist (lower (strip q)) (lower (phone c))
                 else if strip ch = ''3'' then sublist (lower (strip q)) (lower (comment c))
                 else sublist (lower (strip q)) (lower (name c))
                      \<or> sublist (lower (strip q)) (lower (phone c))
                      \<or> sublist (lower (strip q)) (lower (comment c)))
            (contacts pb)))"
  by (simp add: find_contact_def Let_def lower_Nil py_in_sublist)

theorem find_contact_spec_witness:
  "strip ''  '' = []
   \<and> find_contact (Some ''4'') (Some ''  '') ivan_book \<in> {BookEmpty, EmptyQuery}
   \<and> contacts (init ''pb.json'') = []
   \<and> find_contact (Some ''4'') (Some ''ivan'') (init ''pb.json'') = BookEmpty
   \<and> strip '' IVAN'' \<noteq> [] \<and> contacts ivan_book \<noteq> []
   \<and> find_contact (Some ''4'') (Some '' IVAN'') ivan_book =
       Results [\<lparr>contact_id = JInt 1, name = ''Ivan Petrov'', phone = ''1'', comment = ''''\<rparr>,
                \<lparr>contact_id = JInt 2, name = ''Maria'', phone = ''2'', comment = ''ask Ivan''\<rparr>]"
proof -
  have h1: "strip ''  '' = []" by code_simp
  have h2: "strip '' IVAN'' \<noteq> [] \<and> contacts ivan_book \<noteq> []" by code_simp
  have h3: "contacts (init ''pb.json'') = []" by (simp add: init_def)
  have r: "filter
            (\<lambda>c. if strip ''4'' = ''1'' then sublist (lower (strip '' IVAN'')) (lower (name c))
                 else if strip ''4'' = ''2'' then sublist (lower (strip '' IVAN'')) (lower (phone c))
                 else if strip ''4'' = ''3'' then sublist (lower (strip '' IVAN'')) (lower (comment c))
                 else sublist (lower (strip '' IVAN'')) (lower (name c))
                      \<or> sublist (lower (strip '' IVAN'')) (lower (phone c))
                      \<or> sublist (lower (strip '' IVAN'')) (lower (comment c)))
            (contacts ivan_book)
          = [\<lparr>contact_id = JInt 1, name = ''Ivan Petrov'', phone = ''1'', comment = ''''\<rparr>,
             \<lparr>contact_id = JInt 2, name = ''Maria'', phone = ''2'', comment = ''ask Ivan''\<rparr>]"
    by code_simp
  have a: "find_contact (Some ''4'') (Some ''  '') ivan_book \<in> {BookEmpty, EmptyQuery}"
    using find_contact_spec [of "''  ''" "''4''" ivan_book] h1 by blast
  have b: "find_contact (Some ''4'') (Some '' IVAN'') ivan_book =
       Results [\<lparr>contact_id = JInt 1, name = ''Ivan Petrov'', phone = ''1'', comment = ''''\<rparr>,
                \<lparr>contact_id = JInt 2, name = ''Maria'', phone = ''2'', comment = ''ask Ivan''\<rparr>]"
    using find_contact_spec [of "'' IVAN''" "''4''" ivan_book] h2 unfolding r by blast
  have c: "find_contact (Some ''4'') (Some ''ivan'') (init ''pb.json'') = BookEmpty"
    using find_contact_spec [of "''ivan''" "''4''" "init ''pb.json''"] h3 by blast
  show ?thesis using h1 h2 h3 a b c by blast
qed

section \<open>Properties of the steps of a load\<close>

lemma new_contact_Inr:
  "new_contact vn vp vc cid = Inr c \<Longrightarrow>
     is_str vn \<and> is_str vp \<and> is_str vc
     \<and> c = Contact (the_str vn) (the_str vp) (the_str vc) cid"
  by (cases "(vn, vp, vc, cid)" rule: new_contact.cases) auto

lemma new_contact_not_caught:
  "new_contact vn vp vc cid \<noteq> Inl ValueError" "new_contact vn vp vc cid \<noteq> Inl KeyError"
  by (cases "(vn, vp, vc, cid)" rule: new_contact.cases; simp)+

lemma new_contact_strs:
  "is_str vn \<Longrightarrow> is_str vp \<Longrightarrow> is_str vc \<Longrightarrow>
   new_contact vn vp vc cid = Inr (Contact (the_str vn) (the_str vp) (the_str vc) cid)"
  by (cases vn; cases vp; cases vc) simp_all

lemma from_dict_Inr:
  assumes "from_dict e = Inr c"
  shows "has_keys e \<and> represents e c \<and> contact_id c = entry_id e \<and> stripped c"
proof (cases e)
  case (JObj d)
  with assms obtain vn vp where
    vn: "map_of d ''name'' = Some vn" and vp: "map_of d ''phone'' = Some vp"
    and nc: "new_contact vn vp (dict_get d ''comment'' (JStr [])) (dict_get d ''id'' JNull) = Inr c"
    by (auto split: option.splits)
  from new_contact_Inr [OF nc] vn vp JObj show ?thesis
    by (simp add: Contact_def dict_get_def stripped_def strip_idem)
qed (use assms in \<open>simp_all split: if_splits\<close>)

lemma from_dict_ValueError:
  "from_dict e = Inl ValueError \<Longrightarrow> \<not> has_keys e"
  by (cases e) (auto split: option.splits if_splits simp: new_contact_not_caught)

lemma from_dict_KeyError: "from_dict e \<noteq> Inl KeyError"
  by (cases e) (auto split: option.splits if_splits simp: new_contact_not_caught)

lemma from_dict_contact_object:
  assumes "contact_object e"
  shows "if has_keys e then (\<exists>c. from_dict e = Inr c) else from_dict e = Inl ValueError"
proof (cases e)
  case (JObj d)
  show ?thesis
  proof (cases "has_keys e")
    case True
    with JObj assms show ?thesis
      by (auto simp: dict_get_def new_contact_strs)
  next
    case False
    with JObj show ?thesis by (auto split: option.splits)
  qed
qed (use assms in simp_all)

lemma load_contacts_Inr:
  "load_contacts i es = (w, Inr cs) \<Longrightarrow>
     w = warnings_from i es \<and> list_all2 (\<lambda>e c. from_dict e = Inr c) (filter has_keys es) cs"
proof (induction es arbitrary: i w cs)
  case Nil
  then show ?case by (simp add: warnings_from_def)
next
  case (Cons e es)
  show ?case
  proof (cases "from_dict e")
    case (Inr c)
    with Cons.prems obtain cs' where
      r: "load_contacts (Suc i) es = (w, Inr cs')" and cs: "cs = c # cs'"
      by (auto split: prod.splits sum.splits)
    from Cons.IH [OF r] from_dict_Inr [OF Inr] cs Inr show ?thesis
      by (simp add: warnings_from_def)
  next
    case (Inl x)
    with Cons.prems have x: "x = ValueError"
      by (cases x) (auto simp: from_dict_KeyError split: prod.splits)
    with Inl Cons.prems obtain w' where
      r: "load_contacts (Suc i) es = (w', Inr cs)" and w: "w = Suc i # w'"
      by (auto split: prod.splits)
    from Cons.IH [OF r] from_dict_ValueError Inl x w show ?thesis
      by (simp add: warnings_from_def)
  qed
qed

lemma load_contacts_succeeds:
  "\<forall>e\<in>set es. contact_object e \<Longrightarrow> \<exists>cs. load_contacts i es = (warnings_from i es, Inr cs)"
proof (induction es arbitrary: i)
  case Nil
  then show ?case by (simp add: warnings_from_def)
next
  case (Cons e es)
  then obtain cs where r: "load_contacts (Suc i) es = (warnings_from (Suc i) es, Inr cs)"
    by (meson list.set_intros(2))
  from Cons.prems have "contact_object e" by simp
  from from_dict_contact_object [OF this] r show ?case
    by (auto simp: warnings_from_def split: if_splits)
qed


lemma assign_ids_frame:
  "assign_ids n cs = (cs', n', b) \<Longrightarrow> list_all2 same_but_id cs cs'"
proof (induction cs arbitrary: n cs' n' b)
  case Nil
  then show ?case by simp
next
  case (Cons c cs)
  then show ?case
    by (auto simp: same_but_id_def split: if_splits prod.splits)
qed

lemma assign_ids_ids:
  "assign_ids n cs = (cs', n', b) \<Longrightarrow>
     n' = n + int (length (filter (\<lambda>c. contact_id c = JNull) cs))
     \<and> set (map contact_id cs') =
         set (filter (\<lambda>v. v \<noteq> JNull) (map contact_id cs)) \<union> JInt ` {n..<n'}
     \<and> (b \<longleftrightarrow> (\<exists>c\<in>set cs. contact_id c = JNull))"
proof (induction cs arbitrary: n cs' n' b)
  case Nil
  then show ?case by simp
next
  case (Cons c cs)
  show ?case
  proof (cases "contact_id c = JNull")
    case True
    with Cons.prems obtain cs'' b'' where
      r: "assign_ids (n + 1) cs = (cs'', n', b'')"
      and cs': "cs' = c\<lparr>contact_id := JInt n\<rparr> # cs''" and b: "b = True"
      by (auto split: prod.splits)
    from Cons.IH [OF r] have
      n': "n' = n + 1 + int (length (filter (\<lambda>c. contact_id c = JNull) cs))"
      and ids: "set (map contact_id cs'') =
         set (filter (\<lambda>v. v \<noteq> JNull) (map contact_id cs)) \<union> JInt ` {n + 1..<n'}"
      by simp_all
    have "{n..<n'} = insert n {n + 1..<n'}" using n' by auto
    with True n' ids cs' b show ?thesis by simp
  next
    case False
    with Cons.prems obtain cs'' where
      r: "assign_ids n cs = (cs'', n', b)" and cs': "cs' = c # cs''"
      by (auto split: prod.splits)
    from Cons.IH [OF r] False cs' show ?thesis by auto
  qed
qed

lemma assign_ids_no_null:
  "\<forall>c\<in>set cs. contact_id c \<noteq> JNull \<Longrightarrow> assign_ids n cs = (cs, n, False)"
  by (induction cs) auto

lemma max_plus_one_numeric:
  "vs \<noteq> [] \<Longrightarrow> \<forall>v\<in>set vs. py_num v \<noteq> None \<Longrightarrow>
   max_plus_one vs = Inr (Max ((\<lambda>v. the (py_num v)) ` set vs) + 1)"
proof (cases vs)
  case Nil
  then show "vs \<noteq> [] \<Longrightarrow> ?thesis" by simp
next
  case (Cons v vs')
  assume a: "\<forall>v\<in>set vs. py_num v \<noteq> None"
  have "fold max (map (\<lambda>x. the (py_num x)) vs') (the (py_num v))
        = Max (set (the (py_num v) # map (\<lambda>x. the (py_num x)) vs'))"
    by (simp only: Max.set_eq_fold)
  with Cons a show ?thesis by (simp add: list_all_iff)
qed

lemma install_eq:
  "install cs pb =
     (case start_id cs of
        Inl x \<Rightarrow> (False, pb\<lparr>contacts := cs\<rparr>)
      | Inr n \<Rightarrow>
          (case assign_ids n cs of
             (cs', n', b) \<Rightarrow>
               (True, pb\<lparr>contacts := cs', next_id := n',
                         modified := (if b then modified pb else False)\<rparr>)))"
  by (cases "cs = []") (simp_all add: install_def start_id_def split: sum.splits prod.splits)

lemma start_id_numeric:
  assumes "\<forall>c\<in>set cs. contact_id c = JNull \<or> py_num (contact_id c) \<noteq> None"
  shows "\<exists>n. start_id cs = Inr n"
proof (cases "filter (\<lambda>v. v \<noteq> JNull) (map contact_id cs) = []")
  case True
  then show ?thesis by (simp add: start_id_def)
next
  case False
  moreover have "\<forall>v\<in>set (filter (\<lambda>v. v \<noteq> JNull) (map contact_id cs)). py_num v \<noteq> None"
    using assms by auto
  ultimately show ?thesis
    using max_plus_one_numeric [of "filter (\<lambda>v. v \<noteq> JNull) (map contact_id cs)"]
    by (simp add: start_id_def)
qed

lemma load_from_file_document:
  assumes "files fs (filename pb) = Some (Document (JObj obj))"
    and "\<not> denied fs (filename pb)"
    and "dict_get obj ''contacts'' (JArr []) = JArr entries"
  shows "load_from_file fs pb =
     (case load_contacts 0 entries of
        (w, Inl x) \<Rightarrow> (False, w, pb)
      | (w, Inr cs) \<Rightarrow> (case install cs pb of (ok, pb') \<Rightarrow> (ok, w, pb')))"
  using assms by (simp add: load_from_file_def)

lemma warnings_from_0: "warnings_from 0 es = skipped es"
  by (simp add: warnings_from_def skipped_def)

lemma represents_after_assign:
  "from_dict e = Inr c \<Longrightarrow> same_but_id c c' \<Longrightarrow> represents e c'"
  using from_dict_Inr [of e c]
  by (cases e) (auto simp: same_but_id_def)


lemma list_all2_right_witness:
  "list_all2 P xs ys \<Longrightarrow> y \<in> set ys \<Longrightarrow> \<exists>x\<in>set xs. P x y"
  by (induction rule: list_all2_induct) auto

lemma loaded_id_numeric:
  assumes "contact_object e" and "from_dict e = Inr c"
  shows "contact_id c = JNull \<or> py_num (contact_id c) \<noteq> None"
proof -
  from from_dict_Inr [OF assms(2)] have k: "has_keys e" and i: "contact_id c = entry_id e"
    by simp_all
  from assms(1) k i show ?thesis
    by (cases e) simp_all
qed

section \<open>Entries without a required key\<close>

text \<open>
  C5. The file parses to a dictionary whose \<open>contacts\<close> is a list of contact objects, and
  can be opened. Then \<open>load_from_file\<close> returns \<open>True\<close>; it prints one warning for each
  entry that lacks \<open>name\<close> or \<open>phone\<close>, naming the entry by its number; and the records
  of the store correspond, one to one and in the order of the file, to the entries that
  have both keys, each record representing its entry.
\<close>

theorem load_skips_invalid_entries:
  assumes "files fs (filename pb) = Some (Document (JObj obj))"
    and "\<not> denied fs (filename pb)"
    and "dict_get obj ''contacts'' (JArr []) = JArr entries"
    and "\<forall>e\<in>set entries. contact_object e"
  shows "fst (load_from_file fs pb)
     \<and> fst (snd (load_from_file fs pb)) = skipped entries
     \<and> list_all2 represents (filter has_keys entries)
          (contacts (snd (snd (load_from_file fs pb))))"
proof -
  from load_contacts_succeeds [OF assms(4), of 0] obtain cs where
    lc: "load_contacts 0 entries = (skipped entries, Inr cs)"
    by (auto simp: warnings_from_0)
  from load_contacts_Inr [OF lc] have
    rel: "list_all2 (\<lambda>e c. from_dict e = Inr c) (filter has_keys entries) cs" by simp
  have "\<forall>c\<in>set cs. contact_id c = JNull \<or> py_num (contact_id c) \<noteq> None"
  proof
    fix c assume "c \<in> set cs"
    from list_all2_right_witness [OF rel this] obtain e where
      e: "e \<in> set (filter has_keys entries)" "from_dict e = Inr c" by blast
    with assms(4) have "contact_object e" by simp
    from loaded_id_numeric [OF this e(2)]
    show "contact_id c = JNull \<or> py_num (contact_id c) \<noteq> None" .
  qed
  from start_id_numeric [OF this] obtain n where n: "start_id cs = Inr n" ..
  obtain cs' n' b where a: "assign_ids n cs = (cs', n', b)" by (cases "assign_ids n cs") auto
  have res: "load_from_file fs pb =
      (True, skipped entries,
       pb\<lparr>contacts := cs', next_id := n', modified := (if b then modified pb else False)\<rparr>)"
    using load_from_file_document [OF assms(1-3)] lc n a by (simp add: install_eq)
  have "list_all2 represents (filter has_keys entries) cs'"
    using rel assign_ids_frame [OF a]
    by (rule list_all2_trans [rotated]) (rule represents_after_assign)
  with res show ?thesis by simp
qed

theorem load_skips_invalid_entries_witness:
  "files (disk (document three_entries)) (filename (init ''pb.json''))
     = Some (Document (JObj [(''contacts'', JArr three_entries)]))
   \<and> \<not> denied (disk (document three_entries)) (filename (init ''pb.json''))
   \<and> dict_get [(''contacts'', JArr three_entries)] ''contacts'' (JArr []) = JArr three_entries
   \<and> list_all contact_object three_entries
   \<and> fst (load_from_file (disk (document three_entries)) (init ''pb.json''))
   \<and> fst (snd (load_from_file (disk (document three_entries)) (init ''pb.json''))) = [2]
   \<and> list_all2 represents (filter has_keys three_entries)
        (contacts (snd (snd (load_from_file (disk (document three_entries)) (init ''pb.json'')))))"
proof -
  have h1: "files (disk (document three_entries)) (filename (init ''pb.json''))
     = Some (Document (JObj [(''contacts'', JArr three_entries)]))"
    by (simp add: disk_def document_def init_def)
  have h2: "\<not> denied (disk (document three_entries)) (filename (init ''pb.json''))"
    by (simp add: disk_def)
  have h3: "dict_get [(''contacts'', JArr three_entries)] ''contacts'' (JArr [])
     = JArr three_entries"
    by (simp add: dict_get_def)
  have h4: "\<forall>e\<in>set three_entries. contact_object e"
    by (simp add: three_entries_def entry_without_id_def dict_get_def)
  have s: "skipped three_entries = [2]"
    by (simp add: skipped_def three_entries_def entry_without_id_def)
  show ?thesis
    using h1 h2 h3 h4 load_skips_invalid_entries [OF h1 h2 h3 h4]
    unfolding s list_all_iff by blast
qed

lemma store_inv_ids:
  "store_inv pb =
     (list_all (\<lambda>v. v \<noteq> JNull) (map contact_id (contacts pb))
      \<and> distinct (map contact_id (contacts pb))
      \<and> list_all (id_below (next_id pb)) (map contact_id (contacts pb)))"
  by (simp add: store_inv_def list_all_iff)

lemma id_below_conv: "id_below n v \<longleftrightarrow> (\<exists>m. v = JInt m \<and> m < n)"
  by (cases v) auto

lemma id_below_mono: "id_below n v \<Longrightarrow> n \<le> n' \<Longrightarrow> id_below n' v"
  by (auto simp: id_below_conv)

lemma loaded_ids:
  "load_contacts i es = (w, Inr cs) \<Longrightarrow> map contact_id cs = map entry_id (filter has_keys es)"
proof -
  assume "load_contacts i es = (w, Inr cs)"
  from load_contacts_Inr [OF this]
  have "list_all2 (\<lambda>e c. from_dict e = Inr c) (filter has_keys es) cs" by simp
  then have "list_all2 (\<lambda>e c. entry_id e = contact_id c) (filter has_keys es) cs"
    by (rule list_all2_mono) (simp add: from_dict_Inr)
  then show ?thesis
    by (induction rule: list_all2_induct) simp_all
qed

lemma assign_ids_distinct:
  assumes "assign_ids n cs = (cs', n', b)"
    and "distinct (filter (\<lambda>v. v \<noteq> JNull) (map contact_id cs))"
    and "\<forall>v\<in>set (filter (\<lambda>v. v \<noteq> JNull) (map contact_id cs)). id_below n v"
  shows "distinct (map contact_id cs') \<and> (\<forall>c\<in>set cs'. id_below n' (contact_id c)) \<and> n \<le> n'"
  using assms
proof (induction cs arbitrary: n cs' n' b)
  case Nil
  then show ?case by simp
next
  case (Cons c cs)
  show ?case
  proof (cases "contact_id c = JNull")
    case True
    with Cons.prems(1) obtain cs'' b'' where
      r: "assign_ids (n + 1) cs = (cs'', n', b'')"
      and cs': "cs' = c\<lparr>contact_id := JInt n\<rparr> # cs''"
      by (auto split: prod.splits)
    have d: "distinct (filter (\<lambda>v. v \<noteq> JNull) (map contact_id cs))"
      using Cons.prems(2) True by simp
    have bl: "\<forall>v\<in>set (filter (\<lambda>v. v \<noteq> JNull) (map contact_id cs)). id_below (n + 1) v"
    proof
      fix v assume "v \<in> set (filter (\<lambda>v. v \<noteq> JNull) (map contact_id cs))"
      with Cons.prems(3) have "id_below n v" by simp
      then show "id_below (n + 1) v" by (rule id_below_mono) simp
    qed
    from Cons.IH [OF r d bl] have
      ih: "distinct (map contact_id cs'')" "\<forall>c\<in>set cs''. id_below n' (contact_id c)" "n + 1 \<le> n'"
      by simp_all
    from assign_ids_ids [OF r] have
      ids: "set (map contact_id cs'') =
         set (filter (\<lambda>v. v \<noteq> JNull) (map contact_id cs)) \<union> JInt ` {n + 1..<n'}" by simp
    have "JInt n \<notin> set (map contact_id cs'')"
      unfolding ids using Cons.prems(3) True by (auto simp: id_below_conv)
    with ih cs' show ?thesis by simp
  next
    case False
    with Cons.prems(1) obtain cs'' where
      r: "assign_ids n cs = (cs'', n', b)" and cs': "cs' = c # cs''"
      by (auto split: prod.splits)
    have d: "distinct (filter (\<lambda>v. v \<noteq> JNull) (map contact_id cs))"
      using Cons.prems(2) False by simp
    have bl: "\<forall>v\<in>set (filter (\<lambda>v. v \<noteq> JNull) (map contact_id cs)). id_below n v"
      using Cons.prems(3) by simp
    from Cons.IH [OF r d bl] have
      ih: "distinct (map contact_id cs'')" "\<forall>c\<in>set cs''. id_below n' (contact_id c)" "n \<le> n'"
      by simp_all
    from assign_ids_ids [OF r] have
      ids: "set (map contact_id cs'') =
         set (filter (\<lambda>v. v \<noteq> JNull) (map contact_id cs)) \<union> JInt ` {n..<n'}" by simp
    have c_below: "id_below n (contact_id c)" using Cons.prems(3) False by simp
    have "contact_id c \<notin> set (filter (\<lambda>v. v \<noteq> JNull) (map contact_id cs))"
      using Cons.prems(2) False by simp
    moreover have "contact_id c \<notin> JInt ` {n..<n'}"
      using c_below by (auto simp: id_below_conv)
    ultimately have "contact_id c \<notin> set (map contact_id cs'')"
      unfolding ids by blast
    moreover have "id_below n' (contact_id c)"
      using c_below ih(3) by (rule id_below_mono)
    ultimately show ?thesis using ih cs' by simp
  qed
qed

lemma start_id_ints:
  assumes "list_all is_int (filter (\<lambda>v. v \<noteq> JNull) (map contact_id cs))"
  shows "\<exists>n. start_id cs = Inr n
     \<and> (\<forall>v\<in>set (filter (\<lambda>v. v \<noteq> JNull) (map contact_id cs)). id_below n v)"
proof (cases "filter (\<lambda>v. v \<noteq> JNull) (map contact_id cs) = []")
  case True
  then show ?thesis by (simp add: start_id_def)
next
  case False
  let ?g = "filter (\<lambda>v. v \<noteq> JNull) (map contact_id cs)"
  have ints: "\<forall>v\<in>set ?g. is_int v" using assms by (simp add: list_all_iff)
  have num: "\<forall>v\<in>set ?g. py_num v \<noteq> None"
  proof
    fix v assume "v \<in> set ?g"
    with ints have "is_int v" by blast
    then show "py_num v \<noteq> None" by (cases v) simp_all
  qed
  from max_plus_one_numeric [OF False num]
  have s: "start_id cs = Inr (Max ((\<lambda>v. the (py_num v)) ` set ?g) + 1)"
    using False by (simp add: start_id_def)
  have "\<forall>v\<in>set ?g. id_below (Max ((\<lambda>v. the (py_num v)) ` set ?g) + 1) v"
  proof
    fix v assume v: "v \<in> set ?g"
    with ints have "is_int v" by blast
    then obtain m where m: "v = JInt m" by (cases v) simp_all
    have "the (py_num v) \<le> Max ((\<lambda>v. the (py_num v)) ` set ?g)"
      using v by (intro Max_ge) auto
    with m show "id_below (Max ((\<lambda>v. the (py_num v)) ` set ?g) + 1) v" by simp
  qed
  with s show ?thesis by blast
qed

lemma load_Document_True:
  assumes "files fs (filename pb) = Some (Document data)"
    and "load_from_file fs pb = (True, w, pb')"
  shows "\<not> denied fs (filename pb)
     \<and> (\<exists>cs. load_contacts 0 (doc_entries data) = (w, Inr cs) \<and> install cs pb = (True, pb'))"
  using assms
  by (auto simp: load_from_file_def doc_entries_def split: if_splits sum.splits prod.splits)

lemma load_establishes_inv:
  assumes "files fs (filename pb) = Some (Document data)"
    and "given_ids_ok (doc_entries data)"
    and "load_from_file fs pb = (True, w, pb')"
  shows "store_inv pb'"
proof -
  from load_Document_True [OF assms(1,3)] obtain cs where
    lc: "load_contacts 0 (doc_entries data) = (w, Inr cs)" and ins: "install cs pb = (True, pb')"
    by blast
  have g: "filter (\<lambda>v. v \<noteq> JNull) (map contact_id cs) = given_ids (doc_entries data)"
    by (simp add: loaded_ids [OF lc] given_ids_def)
  from assms(2) have ints: "list_all is_int (filter (\<lambda>v. v \<noteq> JNull) (map contact_id cs))"
    and d: "distinct (filter (\<lambda>v. v \<noteq> JNull) (map contact_id cs))"
    by (simp_all add: g given_ids_ok_def)
  from start_id_ints [OF ints] obtain n where
    n: "start_id cs = Inr n"
    and bl: "\<forall>v\<in>set (filter (\<lambda>v. v \<noteq> JNull) (map contact_id cs)). id_below n v"
    by blast
  obtain cs' n' b where a: "assign_ids n cs = (cs', n', b)" by (cases "assign_ids n cs") auto
  from ins n a have pb': "contacts pb' = cs'" "next_id pb' = n'"
    by (auto simp: install_eq)
  from assign_ids_distinct [OF a d bl] have
    "distinct (map contact_id cs')" "\<forall>c\<in>set cs'. id_below n' (contact_id c)" by simp_all
  then show ?thesis
    unfolding store_inv_def pb' by (auto simp: list_all_iff id_below_conv)
qed

lemma ids_update:
  "k < length cs \<Longrightarrow> contact_id c' = contact_id (cs ! k) \<Longrightarrow>
   map contact_id (cs[k := c']) = map contact_id cs"
  by (simp add: map_update list_update_same_conv)

lemma edit_contact_ids:
  "map contact_id (contacts (snd (edit_contact id_in name_in phone_in comment_in pb)))
     = map contact_id (contacts pb)
   \<and> next_id (snd (edit_contact id_in name_in phone_in comment_in pb)) = next_id pb"
proof (cases "\<exists>l0 k. id_in = Some l0 \<and> isdigit (strip l0)
    \<and> find_by_id (contacts pb) (int_of_digits (strip l0)) = Some k")
  case False
  then show ?thesis
    by (auto simp: edit_contact_def split: option.splits)
next
  case True
  then obtain l0 k where l0: "id_in = Some l0" "isdigit (strip l0)"
    and k: "find_by_id (contacts pb) (int_of_digits (strip l0)) = Some k" by blast
  have kl: "k < length (contacts pb)" using find_by_id_Some [OF k] by simp
  then have ne: "contacts pb \<noteq> []" by auto
  show ?thesis
    using l0 k kl ne
    by (simp add: edit_contact_def Let_def ids_update split: option.splits)
qed

lemma create_contact_inv:
  assumes "store_inv pb"
  shows "store_inv (snd (create_contact name_in phone_in comment_in pb))"
proof (cases "\<exists>l1 l2 l3. name_in = Some l1 \<and> strip l1 \<noteq> [] \<and> phone_in = Some l2
    \<and> strip l2 \<noteq> [] \<and> comment_in = Some l3")
  case False
  then have "snd (create_contact name_in phone_in comment_in pb) = pb"
    by (auto simp: create_contact_def split: option.splits)
  with assms show ?thesis by simp
next
  case True
  then obtain l1 l2 l3 where i: "name_in = Some l1" "strip l1 \<noteq> []" "phone_in = Some l2"
    "strip l2 \<noteq> []" "comment_in = Some l3" by blast
  have new: "JInt (next_id pb) \<notin> set (map contact_id (contacts pb))"
    using assms by (auto simp: store_inv_ids list_all_iff id_below_conv)
  have "\<forall>v\<in>set (map contact_id (contacts pb)). id_below (next_id pb + 1) v"
    using assms by (auto simp: store_inv_ids list_all_iff id_below_conv)
  with assms new i show ?thesis
    by (simp add: create_contact_def Let_def Contact_def store_inv_ids list_all_iff)
qed

lemma edit_contact_inv:
  "store_inv pb \<Longrightarrow> store_inv (snd (edit_contact id_in name_in phone_in comment_in pb))"
  by (simp add: store_inv_ids edit_contact_ids)

lemma store_inv_intro:
  assumes "map contact_id (contacts pb) = ids"
    and "\<forall>v\<in>set ids. v \<noteq> JNull" and "distinct ids"
    and "\<forall>v\<in>set ids. id_below (next_id pb) v"
  shows "store_inv pb"
  using assms by (auto simp: store_inv_ids list_all_iff)

lemma delete_contact_inv:
  assumes "store_inv pb"
  shows "store_inv (snd (delete_contact id_in confirm_in pb))"
proof -
  have d: "distinct (take k xs @ drop (Suc k) xs)" if "distinct xs" for k and xs :: "json list"
    using that set_take_disj_set_drop_if_distinct [of xs k "Suc k"] by simp
  have s: "set (take k xs @ drop (Suc k) xs) \<subseteq> set xs" for k and xs :: "json list"
    by (auto dest: in_set_takeD in_set_dropD)
  have keep: "store_inv (pb\<lparr>contacts := take k (contacts pb) @ drop (Suc k) (contacts pb),
                             modified := True\<rparr>)" for k
  proof -
    let ?ids = "map contact_id (contacts pb)"
    let ?ids' = "take k ?ids @ drop (Suc k) ?ids"
    let ?pb' = "pb\<lparr>contacts := take k (contacts pb) @ drop (Suc k) (contacts pb),
                    modified := True\<rparr>"
    from assms have a: "\<forall>v\<in>set ?ids. v \<noteq> JNull" "distinct ?ids"
      "\<forall>v\<in>set ?ids. id_below (next_id pb) v"
      by (simp_all add: store_inv_ids list_all_iff)
    have sub: "set ?ids' \<subseteq> set ?ids" by (rule s)
    have p1: "map contact_id (contacts ?pb') = ?ids'"
      by (simp add: take_map drop_map)
    have p2: "\<forall>v\<in>set ?ids'. v \<noteq> JNull" using a(1) sub by blast
    have p3: "distinct ?ids'" using a(2) by (rule d)
    have "\<forall>v\<in>set ?ids'. id_below (next_id pb) v" using a(3) sub by blast
    then have p4: "\<forall>v\<in>set ?ids'. id_below (next_id ?pb') v" by simp
    show ?thesis by (rule store_inv_intro [OF p1 p2 p3 p4])
  qed
  show ?thesis
    using assms keep
    by (auto simp: delete_contact_def split: option.splits)
qed

section \<open>The invariant of the store\<close>

text \<open>
  C1, as the program has it. The invariant \<open>store_inv\<close> says that every record has an
  identifier, that no two records have the same one, and that the counter is above every
  identifier. It holds after every successful \<open>load_from_file\<close> of an existing file whose
  given identifiers are integers, no two of them equal; entries without an identifier
  may be among them. A load that finds no file succeeds and keeps the invariant, and so
  does every \<open>create_contact\<close>, \<open>edit_contact\<close> and \<open>delete_contact\<close>, however its prompts
  are answered.
\<close>

theorem store_inv_spec:
  "(files fs (filename pb) = Some (Document data) \<and> given_ids_ok (doc_entries data)
      \<and> fst (load_from_file fs pb)
      \<longrightarrow> store_inv (snd (snd (load_from_file fs pb))))
   \<and> (store_inv pb \<longrightarrow>
        (files fs (filename pb) = None \<longrightarrow>
           fst (load_from_file fs pb) \<and> store_inv (snd (snd (load_from_file fs pb))))
        \<and> store_inv (snd (create_contact name_in phone_in comment_in pb))
        \<and> store_inv (snd (edit_contact id_in name_in phone_in comment_in pb))
        \<and> store_inv (snd (delete_contact id_in confirm_in pb)))"
proof -
  have "store_inv (snd (snd (load_from_file fs pb)))"
    if "files fs (filename pb) = Some (Document data)" "given_ids_ok (doc_entries data)"
      "fst (load_from_file fs pb)"
  proof -
    obtain ok w pb' where r: "load_from_file fs pb = (ok, w, pb')"
      by (cases "load_from_file fs pb") auto
    with that(3) have "load_from_file fs pb = (True, w, pb')" by simp
    from load_establishes_inv [OF that(1,2) this] r show ?thesis by simp
  qed
  moreover have "fst (load_from_file fs pb) \<and> store_inv (snd (snd (load_from_file fs pb)))"
    if "store_inv pb" "files fs (filename pb) = None"
    using that by (simp add: load_from_file_def)
  ultimately show ?thesis
    using create_contact_inv edit_contact_inv delete_contact_inv by blast
qed

theorem store_inv_spec_witness:
  "files (disk (document three_entries)) (filename (init ''pb.json''))
     = Some (Document (JObj [(''contacts'', JArr three_entries)]))
   \<and> given_ids_ok (doc_entries (JObj [(''contacts'', JArr three_entries)]))
   \<and> fst (load_from_file (disk (document three_entries)) (init ''pb.json''))
   \<and> store_inv (snd (snd (load_from_file (disk (document three_entries)) (init ''pb.json''))))
   \<and> store_inv book_clean
   \<and> files no_files (filename book_clean) = None
   \<and> fst (load_from_file no_files book_clean)
   \<and> store_inv (snd (snd (load_from_file no_files book_clean)))
   \<and> store_inv (snd (create_contact (Some ''Bob'') (Some ''12'') (Some '''') book_clean))
   \<and> store_inv (snd (edit_contact (Some ''1'') (Some ''Anna'') (Some '''') None book_clean))
   \<and> store_inv (snd (delete_contact (Some ''1'') (Some ''y'') book_clean))"
proof -
  have h1: "files (disk (document three_entries)) (filename (init ''pb.json''))
     = Some (Document (JObj [(''contacts'', JArr three_entries)]))"
    by (simp add: disk_def document_def init_def)
  have h2: "given_ids_ok (doc_entries (JObj [(''contacts'', JArr three_entries)]))"
    by (simp add: given_ids_ok_def given_ids_def doc_entries_def three_entries_def
        entry_without_id_def dict_get_def)
  have h3: "fst (load_from_file (disk (document three_entries)) (init ''pb.json''))"
    by (simp add: load_from_file_def disk_def document_def three_entries_def
        entry_without_id_def init_def install_def Contact_def dict_get_def)
  have h4: "store_inv book_clean"
    by (simp add: store_inv_def book_clean_def ann_def)
  have h5: "files no_files (filename book_clean) = None"
    by (simp add: no_files_def)
  show ?thesis
    using h1 h2 h3 h4 h5
      store_inv_spec [where fs = "disk (document three_entries)" and pb = "init ''pb.json''"
        and data = "JObj [(''contacts'', JArr three_entries)]"]
      store_inv_spec [where fs = no_files and pb = book_clean
        and name_in = "Some ''Bob''" and phone_in = "Some ''12''" and comment_in = "Some ''''"
        and id_in = "Some ''1''" and confirm_in = "Some ''y''"]
      store_inv_spec [where fs = no_files and pb = book_clean
        and name_in = "Some ''Anna''" and phone_in = "Some ''''" and comment_in = None
        and id_in = "Some ''1''"]
    by blast
qed

text \<open>
  C1 as first stated covers files with duplicate identifiers. A file with two
  entries that both give identifier 1 loads successfully, and both records keep it.
\<close>

theorem load_keeps_duplicate_ids:
  "load_from_file (disk (document duplicate_entries)) (init ''pb.json'') =
     (True, [],
      \<lparr>filename = ''pb.json'',
       contacts = [\<lparr>contact_id = JInt 1, name = ''Ann'', phone = ''1'', comment = ''''\<rparr>,
                   \<lparr>contact_id = JInt 1, name = ''Di'', phone = ''4'', comment = ''''\<rparr>],
       next_id = 2, modified = False\<rparr>)
   \<and> \<not> store_inv (snd (snd (load_from_file (disk (document duplicate_entries))
                                              (init ''pb.json''))))"
proof -
  have "load_from_file (disk (document duplicate_entries)) (init ''pb.json'') =
     (True, [],
      \<lparr>filename = ''pb.json'',
       contacts = [\<lparr>contact_id = JInt 1, name = ''Ann'', phone = ''1'', comment = ''''\<rparr>,
                   \<lparr>contact_id = JInt 1, name = ''Di'', phone = ''4'', comment = ''''\<rparr>],
       next_id = 2, modified = False\<rparr>)"
    by (simp add: load_from_file_def disk_def document_def duplicate_entries_def init_def
        install_def Contact_def dict_get_def strip_def isspace_def)
  then show ?thesis by (simp add: store_inv_def)
qed

lemma from_dict_to_dict: "stripped c \<Longrightarrow> from_dict (to_dict c) = Inr c"
  by (cases c) (simp add: to_dict_def stripped_def Contact_def dict_get_def)

lemma load_contacts_to_dict:
  "\<forall>c\<in>set cs. stripped c \<Longrightarrow> load_contacts i (map to_dict cs) = ([], Inr cs)"
  by (induction cs arbitrary: i) (simp_all add: from_dict_to_dict)

lemma max_plus_one_Inr:
  "max_plus_one vs = Inr n \<Longrightarrow> vs \<noteq> [] \<and> (\<forall>v\<in>set vs. py_num v \<noteq> None)"
  by (cases vs) (auto simp: list_all_iff split: if_splits)

lemma install_True:
  assumes "install cs pb = (True, pb')"
  shows "\<exists>n cs' n' b. start_id cs = Inr n \<and> assign_ids n cs = (cs', n', b)
     \<and> pb' = pb\<lparr>contacts := cs', next_id := n',
                 modified := (if b then modified pb else False)\<rparr>"
proof (cases "start_id cs")
  case (Inl x)
  with assms show ?thesis by (simp add: install_eq)
next
  case (Inr n)
  obtain cs' n' b where a: "assign_ids n cs = (cs', n', b)" by (cases "assign_ids n cs") auto
  with assms Inr have "pb' = pb\<lparr>contacts := cs', next_id := n',
                 modified := (if b then modified pb else False)\<rparr>"
    by (simp add: install_eq)
  with Inr a show ?thesis by blast
qed

lemma loaded_stripped:
  assumes "load_contacts i es = (w, Inr cs)"
  shows "\<forall>c\<in>set cs. stripped c"
proof
  fix c assume "c \<in> set cs"
  from load_contacts_Inr [OF assms] have
    "list_all2 (\<lambda>e c. from_dict e = Inr c) (filter has_keys es) cs" by simp
  from list_all2_right_witness [OF this \<open>c \<in> set cs\<close>] obtain e where "from_dict e = Inr c"
    by blast
  then show "stripped c" by (simp add: from_dict_Inr)
qed

lemma assign_ids_stripped:
  assumes "assign_ids n cs = (cs', n', b)" and "\<forall>c\<in>set cs. stripped c"
  shows "\<forall>c\<in>set cs'. stripped c"
proof
  fix c' assume "c' \<in> set cs'"
  from list_all2_right_witness [OF assign_ids_frame [OF assms(1)] this] obtain c where
    "c \<in> set cs" "same_but_id c c'" by blast
  with assms(2) show "stripped c'" by (auto simp: stripped_def same_but_id_def)
qed

lemma Max_image_in: "xs \<noteq> [] \<Longrightarrow> Max (f ` set xs) \<in> f ` set xs"
  by (intro Max_in) simp_all

lemma start_id_after_assign:
  assumes s: "start_id cs = Inr n" and a: "assign_ids n cs = (cs', n', b)"
  shows "(\<forall>c\<in>set cs'. contact_id c \<noteq> JNull) \<and> start_id cs' = Inr n'"
proof (cases "cs = []")
  case True
  with s a show ?thesis by (auto simp: start_id_def)
next
  case False
  let ?g = "filter (\<lambda>v. v \<noteq> JNull) (map contact_id cs)"
  let ?num = "\<lambda>v. the (py_num v)"
  from assign_ids_ids [OF a] have
    n': "n' = n + int (length (filter (\<lambda>c. contact_id c = JNull) cs))"
    and ids: "set (map contact_id cs') = set ?g \<union> JInt ` {n..<n'}" by simp_all
  have len: "length cs' = length cs"
    using assign_ids_frame [OF a] by (simp add: list_all2_lengthD)
  with False have ne': "cs' \<noteq> []" by auto
  have gnum: "\<forall>v\<in>set ?g. py_num v \<noteq> None"
  proof (cases "?g = []")
    case True
    then show ?thesis by simp
  next
    case False
    with s have "max_plus_one ?g = Inr n" by (simp add: start_id_def)
    from max_plus_one_Inr [OF this] show ?thesis by simp
  qed
  have gmax: "?g \<noteq> [] \<Longrightarrow> n = Max (?num ` set ?g) + 1"
    using s max_plus_one_numeric [OF _ gnum] by (simp add: start_id_def)
  have nonull: "\<forall>v\<in>set (map contact_id cs'). v \<noteq> JNull"
    unfolding ids by auto
  have num': "\<forall>v\<in>set (map contact_id cs'). py_num v \<noteq> None"
    unfolding ids using gnum by auto
  have f: "filter (\<lambda>v. v \<noteq> JNull) (map contact_id cs') = map contact_id cs'"
    using nonull by (simp add: filter_id_conv)
  have ne'': "map contact_id cs' \<noteq> []" using ne' by simp
  have img: "?num ` set (map contact_id cs') = ?num ` set ?g \<union> {n..<n'}"
    unfolding ids by (auto simp: image_Un image_image)
  have le: "n \<le> n'" using n' by simp
  have upper: "\<forall>y\<in>?num ` set ?g \<union> {n..<n'}. y \<le> n' - 1"
  proof
    fix y assume "y \<in> ?num ` set ?g \<union> {n..<n'}"
    then show "y \<le> n' - 1"
    proof
      assume y: "y \<in> ?num ` set ?g"
      have "?g \<noteq> []"
      proof
        assume "?g = []"
        with y have "y \<in> ?num ` set ([] :: json list)" by (simp only:)
        then show False by simp
      qed
      from gmax [OF this] have "Max (?num ` set ?g) = n - 1" by simp
      moreover have "y \<le> Max (?num ` set ?g)" using y by (intro Max_ge) auto
      ultimately show ?thesis using le by simp
    next
      assume "y \<in> {n..<n'}"
      then show ?thesis by simp
    qed
  qed
  have mem: "n' - 1 \<in> ?num ` set ?g \<union> {n..<n'}"
  proof (cases "n < n'")
    case True
    then show ?thesis by simp
  next
    case False
    with le have eq: "n' = n" by simp
    with n' have "filter (\<lambda>c. contact_id c = JNull) cs = []" by simp
    then have "\<forall>c\<in>set cs. contact_id c \<noteq> JNull" by (simp add: filter_empty_conv)
    with \<open>cs \<noteq> []\<close> have g: "?g \<noteq> []"
      by (cases cs) auto
    from gmax [OF g] have "Max (?num ` set ?g) = n - 1" by simp
    moreover have "Max (?num ` set ?g) \<in> ?num ` set ?g"
      by (rule Max_image_in [OF g])
    ultimately show ?thesis using eq by simp
  qed
  have "Max (?num ` set (map contact_id cs')) = n' - 1"
    unfolding img using upper mem by (intro Max_eqI) auto
  with max_plus_one_numeric [OF ne'' num']
  have "max_plus_one (map contact_id cs') = Inr n'" by simp
  with f ne'' nonull show ?thesis by (simp add: start_id_def)
qed

lemma save_then_load:
  assumes "\<forall>c\<in>set (contacts pb). well_formed c"
    and "\<not> unwritable fs (filename pb)"
    and "\<not> denied fs (filename pb)"
    and "filename q = filename pb"
  shows "save_to_file now fs pb
           = (True, fst (snd (save_to_file now fs pb)), pb\<lparr>modified := False\<rparr>)
     \<and> (\<exists>n. load_from_file (fst (snd (save_to_file now fs pb))) q
              = (True, [], q\<lparr>contacts := contacts pb, next_id := n, modified := False\<rparr>)
            \<and> start_id (contacts pb) = Inr n)"
proof -
  let ?cs = "contacts pb"
  let ?data = "JObj [(''contacts'', JArr (map to_dict ?cs)), (''last_updated'', JStr now)]"
  let ?fs = "fs\<lparr>files := (files fs)(filename pb := Some (Document ?data))\<rparr>"
  have str: "\<forall>c\<in>set ?cs. stripped c" and nonull: "\<forall>c\<in>set ?cs. contact_id c \<noteq> JNull"
    and num: "\<forall>c\<in>set ?cs. contact_id c = JNull \<or> py_num (contact_id c) \<noteq> None"
    using assms(1) by (simp_all add: well_formed_def)
  from start_id_numeric [OF num] obtain n where n: "start_id ?cs = Inr n" ..
  have save: "save_to_file now fs pb = (True, ?fs, pb\<lparr>modified := False\<rparr>)"
    using assms(2) by (simp add: save_to_file_def Let_def)
  have inst: "install ?cs q = (True, q\<lparr>contacts := ?cs, next_id := n, modified := False\<rparr>)"
    by (simp add: install_eq n assign_ids_no_null [OF nonull])
  have "load_from_file ?fs q = (True, [], q\<lparr>contacts := ?cs, next_id := n, modified := False\<rparr>)"
    using assms(3,4) load_contacts_to_dict [OF str, of 0] inst
    by (simp add: load_from_file_def dict_get_def)
  with save n show ?thesis by simp
qed

lemma loaded_well_formed:
  assumes "files fs (filename pb) \<noteq> None"
    and "load_from_file fs pb = (True, w, pb1)"
  shows "(\<forall>c\<in>set (contacts pb1). well_formed c)
     \<and> start_id (contacts pb1) = Inr (next_id pb1)"
proof -
  from assms obtain data where doc: "files fs (filename pb) = Some (Document data)"
    by (cases "files fs (filename pb)"; cases "the (files fs (filename pb))")
       (auto simp: load_from_file_def split: if_splits)
  from load_Document_True [OF doc assms(2)] obtain cs where
    lc: "load_contacts 0 (doc_entries data) = (w, Inr cs)"
    and ins: "install cs pb = (True, pb1)" by blast
  from install_True [OF ins] obtain n cs1 n1 b where
    s: "start_id cs = Inr n" and a: "assign_ids n cs = (cs1, n1, b)"
    and pb1: "pb1 = pb\<lparr>contacts := cs1, next_id := n1,
                        modified := (if b then modified pb else False)\<rparr>"
    by blast
  have str: "\<forall>c\<in>set cs1. stripped c"
    using assign_ids_stripped [OF a loaded_stripped [OF lc]] .
  from start_id_after_assign [OF s a] have
    nonull: "\<forall>c\<in>set cs1. contact_id c \<noteq> JNull" and s1: "start_id cs1 = Inr n1" by simp_all
  have num: "\<forall>c\<in>set cs1. py_num (contact_id c) \<noteq> None"
  proof
    fix c assume c: "c \<in> set cs1"
    with nonull have nn: "contact_id c \<noteq> JNull" by simp
    let ?g = "filter (\<lambda>v. v \<noteq> JNull) (map contact_id cs1)"
    from c nn have m: "contact_id c \<in> set ?g" by simp
    then have "?g \<noteq> []" by (metis empty_iff list.set(1))
    with s1 have "max_plus_one ?g = Inr n1" by (simp add: start_id_def)
    from max_plus_one_Inr [OF this] m show "py_num (contact_id c) \<noteq> None" by blast
  qed
  have fn: "contacts pb1 = cs1" "next_id pb1 = n1"
    by (simp_all add: pb1)
  show ?thesis
    unfolding fn using str nonull num s1 by (simp add: well_formed_def)
qed

lemma save_denied:
  "unwritable fs (filename pb) \<Longrightarrow> save_to_file now fs pb = (False, fs, pb)"
  by (simp add: save_to_file_def)

section \<open>Load, save, load\<close>

text \<open>
  C10. A store \<open>pb1\<close> obtained by a successful \<open>load_from_file\<close> is saved, and the file
  written is loaded again. The file system \<open>fs2\<close> at the time of the save need not be the
  one the first load read (the file may have been removed or replaced since); its path
  has to be writable, for the save to succeed, and readable. The second load is into any
  store \<open>q\<close> with the same path, a new one or the store just saved. Then the save returns
  \<open>True\<close> and clears the flag of the store, and the second load returns \<open>True\<close> without a
  warning and makes the records of \<open>q\<close> those of \<open>pb1\<close>: the same identifiers, names,
  telephones and comments, in the same order, the records that had no identifier in the
  first file carrying the one the first load gave them; its flag is clear. When the first
  load read an existing file, the counter is that of \<open>pb1\<close> as well. A first load that
  found no file leaves the store as it was; for that case the records of the store are
  taken to be well formed (stripped texts, numeric identifiers).
\<close>

theorem load_save_load:
  assumes "load_from_file fs pb = (True, w, pb1)"
    and "files fs (filename pb) = None \<longrightarrow> list_all well_formed (contacts pb)"
    and "\<not> unwritable fs2 (filename pb1)"
    and "\<not> denied fs2 (filename pb1)"
    and "filename q = filename pb1"
  shows "save_to_file now fs2 pb1
           = (True, fst (snd (save_to_file now fs2 pb1)), pb1\<lparr>modified := False\<rparr>)
     \<and> load_from_file (fst (snd (save_to_file now fs2 pb1))) q
         = (True, [],
            q\<lparr>contacts := contacts pb1,
              next_id := next_id (snd (snd (load_from_file
                                              (fst (snd (save_to_file now fs2 pb1))) q))),
              modified := False\<rparr>)
     \<and> (files fs (filename pb) \<noteq> None \<longrightarrow>
          next_id (snd (snd (load_from_file (fst (snd (save_to_file now fs2 pb1))) q)))
          = next_id pb1)"
proof -
  have wf: "\<forall>c\<in>set (contacts pb1). well_formed c"
  proof (cases "files fs (filename pb) = None")
    case True
    with assms(1) have "pb1 = pb" by (simp add: load_from_file_def)
    with True assms(2) show ?thesis by (simp add: list_all_iff)
  next
    case False
    from loaded_well_formed [OF False assms(1)] show ?thesis by simp
  qed
  from save_then_load [OF wf assms(3,4,5), of now] obtain n where
    sv: "save_to_file now fs2 pb1
           = (True, fst (snd (save_to_file now fs2 pb1)), pb1\<lparr>modified := False\<rparr>)"
    and l: "load_from_file (fst (snd (save_to_file now fs2 pb1))) q
              = (True, [], q\<lparr>contacts := contacts pb1, next_id := n, modified := False\<rparr>)"
    and n: "start_id (contacts pb1) = Inr n" by blast
  have nx: "next_id (snd (snd (load_from_file (fst (snd (save_to_file now fs2 pb1))) q))) = n"
    by (simp add: l)
  have "n = next_id pb1" if "files fs (filename pb) \<noteq> None"
    using loaded_well_formed [OF that assms(1)] n by simp
  with sv l nx show ?thesis by simp
qed

theorem load_save_load_witness:
  "load_from_file (disk (document three_entries)) (init ''pb.json'') = (True, [2], loaded_book)
   \<and> files (disk (document three_entries)) (filename (init ''pb.json'')) \<noteq> None
   \<and> \<not> unwritable (disk Malformed) (filename loaded_book)
   \<and> \<not> denied (disk Malformed) (filename loaded_book)
   \<and> filename (init ''pb.json'') = filename loaded_book
   \<and> fst (save_to_file ''2024-05-01T10:00:00'' (disk Malformed) loaded_book)
   \<and> snd (snd (save_to_file ''2024-05-01T10:00:00'' (disk Malformed) loaded_book))
       = loaded_book\<lparr>modified := False\<rparr>
   \<and> fst (load_from_file
        (fst (snd (save_to_file ''2024-05-01T10:00:00'' (disk Malformed) loaded_book)))
        (init ''pb.json''))
   \<and> snd (snd (load_from_file
        (fst (snd (save_to_file ''2024-05-01T10:00:00'' (disk Malformed) loaded_book)))
        (init ''pb.json'')))
      = loaded_book
   \<and> load_from_file no_files book_dirty = (True, [], book_dirty)
   \<and> files no_files (filename book_dirty) = None
   \<and> list_all well_formed (contacts book_dirty)
   \<and> \<not> unwritable no_files (filename book_dirty)
   \<and> \<not> denied no_files (filename book_dirty)
   \<and> filename (init ''pb.json'') = filename book_dirty
   \<and> fst (save_to_file ''2024-05-01T10:00:00'' no_files book_dirty)
   \<and> contacts (snd (snd (load_from_file
          (fst (snd (save_to_file ''2024-05-01T10:00:00'' no_files book_dirty)))
          (init ''pb.json''))))
       = [ann]"
proof -
  let ?now = "''2024-05-01T10:00:00''"
  have h1: "load_from_file (disk (document three_entries)) (init ''pb.json'')
      = (True, [2], loaded_book)"
    by (simp add: load_from_file_def disk_def document_def three_entries_def
        entry_without_id_def init_def install_def Contact_def dict_get_def loaded_book_def
        strip_def isspace_def)
  have h2: "files (disk (document three_entries)) (filename (init ''pb.json'')) \<noteq> None"
    by (simp add: disk_def init_def)
  have a: "files (disk (document three_entries)) (filename (init ''pb.json'')) = None \<longrightarrow>
      list_all well_formed (contacts (init ''pb.json''))"
    using h2 by blast
  have h3: "\<not> unwritable (disk Malformed) (filename loaded_book)"
    by (simp add: disk_def)
  have h4: "\<not> denied (disk Malformed) (filename loaded_book)"
    by (simp add: disk_def)
  have h5: "filename (init ''pb.json'') = filename loaded_book"
    by (simp add: init_def loaded_book_def)
  have g1: "load_from_file no_files book_dirty = (True, [], book_dirty)"
    by (simp add: load_from_file_def no_files_def)
  have g2: "files no_files (filename book_dirty) = None"
    by (simp add: no_files_def)
  have g3: "list_all well_formed (contacts book_dirty)"
    by (simp add: book_dirty_def ann_def well_formed_def stripped_def strip_def isspace_def)
  have b: "files no_files (filename book_dirty) = None \<longrightarrow>
      list_all well_formed (contacts book_dirty)"
    using g3 by blast
  have g4: "\<not> unwritable no_files (filename book_dirty)"
    by (simp add: no_files_def)
  have g5: "\<not> denied no_files (filename book_dirty)"
    by (simp add: no_files_def)
  have g6: "filename (init ''pb.json'') = filename book_dirty"
    by (simp add: init_def book_dirty_def)
  note r1 = load_save_load [OF h1 a h3 h4 h5, of ?now]
  note r2 = load_save_load [OF g1 b g4 g5 g6, of ?now]
  let ?l1 = "load_from_file (fst (snd (save_to_file ?now (disk Malformed) loaded_book)))
               (init ''pb.json'')"
  let ?l2 = "load_from_file (fst (snd (save_to_file ?now no_files book_dirty)))
               (init ''pb.json'')"
  from r1 have s1: "save_to_file ?now (disk Malformed) loaded_book
      = (True, fst (snd (save_to_file ?now (disk Malformed) loaded_book)),
         loaded_book\<lparr>modified := False\<rparr>)"
    by (rule conjunct1)
  have c1: "fst (save_to_file ?now (disk Malformed) loaded_book)"
    by (subst s1) simp
  have c2: "snd (snd (save_to_file ?now (disk Malformed) loaded_book))
      = loaded_book\<lparr>modified := False\<rparr>"
    by (subst s1) simp
  from r1 have l1: "?l1 = (True, [],
      (init ''pb.json'')\<lparr>contacts := contacts loaded_book, next_id := next_id (snd (snd ?l1)),
                          modified := False\<rparr>)"
    by blast
  from r1 h2 have n1: "next_id (snd (snd ?l1)) = next_id loaded_book" by blast
  have c3: "fst ?l1" by (subst l1) simp
  have "snd (snd ?l1) = (init ''pb.json'')\<lparr>contacts := contacts loaded_book,
      next_id := next_id loaded_book, modified := False\<rparr>"
    by (subst l1) (simp add: n1)
  then have c4: "snd (snd ?l1) = loaded_book"
    by (simp add: init_def loaded_book_def)
  from r2 have s2: "save_to_file ?now no_files book_dirty
      = (True, fst (snd (save_to_file ?now no_files book_dirty)),
         book_dirty\<lparr>modified := False\<rparr>)"
    by (rule conjunct1)
  have c5: "fst (save_to_file ?now no_files book_dirty)"
    by (subst s2) simp
  from r2 have l2: "?l2 = (True, [],
      (init ''pb.json'')\<lparr>contacts := contacts book_dirty, next_id := next_id (snd (snd ?l2)),
                          modified := False\<rparr>)"
    by blast
  have "contacts (snd (snd ?l2)) = contacts book_dirty"
    by (subst l2) simp
  then have c6: "contacts (snd (snd ?l2)) = [ann]"
    by (simp add: book_dirty_def)
  show ?thesis
    using h1 h2 h3 h4 h5 c1 c2 c3 c4 g1 g2 g3 g4 g5 g6 c5 c6 by (intro conjI)
qed

end
